theory Spec2Isabelle
  imports Complex_Main "HOL-Library.AList"
begin

section \<open>Python values and exceptions\<close>

text \<open>
  The values stored in event dictionaries and database rows (\<open>dict[str, Any]\<close> in
  \<open>openadapt/db/crud.py\<close>). No arithmetic is done on them by the code modelled here;
  they are only moved from one dictionary to another, so a floating-point number is
  represented by the real number it denotes.
\<close>

datatype pyval = PyNone | PyInt int | PyFloat real | PyStr string

text \<open>A Python dictionary with string keys, in insertion order.\<close>

type_synonym pydict = "(string \<times> pyval) list"

text \<open>
  The exceptions of the modelled functions: \<open>IndexError\<close> from indexing a list out of
  range or popping from an empty list, \<open>AssertionError\<close> from the
  \<open>assert not event_data, event_data\<close> of \<open>_insert\<close> (with the offending dictionary
  as its message), and \<open>DatabaseError\<close> for whatever \<open>db.execute\<close> or \<open>db.commit\<close>
  raises when it fails.
\<close>

datatype error = IndexError | AssertionError pydict | DatabaseError

section \<open>Action events and the stop-sequence filter\<close>

text \<open>
  The three attributes of \<open>ActionEvent\<close> that \<open>filter_stop_sequences\<close> reads. All
  three are nullable columns, so each is a string or Python's \<open>None\<close>.
\<close>

record ActionEvent =
  name :: "string option"
  canonical_key_char :: "string option"
  canonical_key_name :: "string option"

text \<open>
  \<open>seq[i]\<close> for a Python list and a Python integer index: indices from \<open>-len(seq)\<close>
  to \<open>-1\<close> count from the end, anything outside \<open>-len(seq) .. len(seq) - 1\<close> raises
  \<open>IndexError\<close>.
\<close>

definition py_index :: "'a list \<Rightarrow> int \<Rightarrow> error + 'a" where
  "py_index seq i =
     (if 0 \<le> i \<and> i < int (length seq) then Inr (seq ! nat i)
      else if - int (length seq) \<le> i \<and> i < 0 then Inr (seq ! nat (int (length seq) + i))
      else Inl IndexError)"

text \<open>
  The condition of the \<open>if\<close> branch of the inner loop, once
  \<open>config.STOP_SEQUENCES[i][stop_sequence_indices[i]]\<close> has been read as \<open>k\<close>:
  \<^verbatim>\<open>(e.canonical_key_char == k or e.canonical_key_name == k) and e.name == "press"\<close>
\<close>

definition press_matches :: "ActionEvent \<Rightarrow> string \<Rightarrow> bool" where
  "press_matches e k \<longleftrightarrow>
     (canonical_key_char e = Some k \<or> canonical_key_name e = Some k) \<and> name e = Some ''press''"

text \<open>
  \<open>x in seq\<close> for an attribute that may be \<open>None\<close> and a list of strings.
\<close>

definition key_in :: "string option \<Rightarrow> string list \<Rightarrow> bool" where
  "key_in x seq = (case x of None \<Rightarrow> False | Some s \<Rightarrow> s \<in> set seq)"

text \<open>
  The condition of the \<open>elif\<close> branch:
  \<^verbatim>\<open>e.name == "release" and (e.canonical_key_char in seq or e.canonical_key_name in seq)\<close>
\<close>

definition release_in :: "ActionEvent \<Rightarrow> string list \<Rightarrow> bool" where
  "release_in e seq \<longleftrightarrow>
     name e = Some ''release'' \<and> (key_in (canonical_key_char e) seq \<or> key_in (canonical_key_name e) seq)"

text \<open>
  The inner loop \<open>for j in range(len(action_events) - 1, -1, -1)\<close> for one candidate
  sequence \<open>seq = config.STOP_SEQUENCES[i]\<close>. The events are passed in the order the
  loop visits them (last event first). The loop state is \<open>idx = stop_sequence_indices[i]\<close>
  and \<open>num_to_remove\<close>. The sequence element is read before anything else is tested, so
  an index out of range raises whatever the event is. The loop ends when the events are
  exhausted or at the \<open>break\<close> of the \<open>else\<close> branch.
\<close>

fun scan :: "string list \<Rightarrow> ActionEvent list \<Rightarrow> int \<Rightarrow> nat \<Rightarrow> error + (int \<times> nat)" where
  "scan seq [] idx num_to_remove = Inr (idx, num_to_remove)"
| "scan seq (e # es) idx num_to_remove =
     (case py_index seq idx of
        Inl err \<Rightarrow> Inl err
      | Inr k \<Rightarrow>
          if press_matches e k then scan seq es (idx - 1) (num_to_remove + 1)
          else if release_in e seq then scan seq es idx (num_to_remove + 1)
          else Inr (idx, num_to_remove))"

text \<open>
  The values \<open>stop_sequence_indices[i]\<close> takes during that loop, in order: its value
  on entry and its value after each iteration that did not raise.
\<close>

fun scan_indices :: "string list \<Rightarrow> ActionEvent list \<Rightarrow> int \<Rightarrow> int list" where
  "scan_indices seq [] idx = [idx]"
| "scan_indices seq (e # es) idx =
     idx # (case py_index seq idx of
              Inl err \<Rightarrow> []
            | Inr k \<Rightarrow>
                if press_matches e k then scan_indices seq es (idx - 1)
                else if release_in e seq then scan_indices seq es idx
                else [idx])"

text \<open>
  The outer loop \<open>for i in range(0, len(config.STOP_SEQUENCES))\<close>. The first argument
  is the part of \<open>config.STOP_SEQUENCES\<close> still to be scanned, \<open>i\<close> is the position of
  its head in the configuration. Each candidate starts at
  \<open>stop_sequence_indices[i] = len(sequence) - 1\<close>; \<open>num_to_remove\<close> is carried from
  one candidate to the next. The result is \<open>(sequence_to_remove, num_to_remove)\<close>.
\<close>

fun find_sequence ::
  "string list list \<Rightarrow> ActionEvent list \<Rightarrow> nat \<Rightarrow> nat \<Rightarrow> error + (int \<times> nat)" where
  "find_sequence [] action_events i num_to_remove = Inr (- 1, num_to_remove)"
| "find_sequence (seq # rest) action_events i num_to_remove =
     (case scan seq (rev action_events) (int (length seq) - 1) num_to_remove of
        Inl err \<Rightarrow> Inl err
      | Inr (idx, num_to_remove') \<Rightarrow>
          if idx = - 1 then Inr (int i, num_to_remove')
          else find_sequence rest action_events (i + 1) num_to_remove')"

text \<open>
  \<open>for _ in range(0, num_to_remove): action_events.pop()\<close>. Popping from an empty
  list raises \<open>IndexError\<close>; the list has been emptied by then.
\<close>

fun pop_n :: "nat \<Rightarrow> 'a list \<Rightarrow> 'a list \<times> error option" where
  "pop_n 0 xs = (xs, None)"
| "pop_n (Suc n) xs = (if xs = [] then ([], Some IndexError) else pop_n n (butlast xs))"

text \<open>The test of the hard-coded Ctrl+C case.\<close>

definition ctrl_c_tail :: "ActionEvent list \<Rightarrow> bool" where
  "ctrl_c_tail action_events \<longleftrightarrow>
     2 \<le> length action_events
     \<and> canonical_key_char (action_events ! (length action_events - 1)) = Some ''c''
     \<and> canonical_key_name (action_events ! (length action_events - 2)) = Some ''ctrl''"

text \<open>
  \<open>filter_stop_sequences\<close> mutates the list it is given and returns \<open>None\<close>. The model
  returns the list as the call leaves it, and the exception if the call raised.
  \<open>config.STOP_SEQUENCES\<close> is defined outside the files at hand and is a parameter.
\<close>

definition filter_stop_sequences ::
  "string list list \<Rightarrow> ActionEvent list \<Rightarrow> ActionEvent list \<times> error option" where
  "filter_stop_sequences STOP_SEQUENCES action_events =
     (if ctrl_c_tail action_events then (butlast (butlast action_events), None)
      else case find_sequence STOP_SEQUENCES action_events 0 0 of
             Inl err \<Rightarrow> (action_events, Some err)
           | Inr (sequence_to_remove, num_to_remove) \<Rightarrow>
               if sequence_to_remove \<noteq> - 1 then pop_n num_to_remove action_events
               else (action_events, None))"

text \<open>Event constructors used in the examples below.\<close>

definition press :: "string \<Rightarrow> ActionEvent" where
  "press k = \<lparr>name = Some ''press'', canonical_key_char = Some k, canonical_key_name = None\<rparr>"

definition release :: "string \<Rightarrow> ActionEvent" where
  "release k = \<lparr>name = Some ''release'', canonical_key_char = Some k, canonical_key_name = None\<rparr>"

definition press_named :: "string \<Rightarrow> ActionEvent" where
  "press_named k = \<lparr>name = Some ''press'', canonical_key_char = None, canonical_key_name = Some k\<rparr>"


section \<open>Buffered inserts\<close>

text \<open>
  What \<open>_insert\<close> reads of an ORM model class: the name of its table and the names of
  the columns of \<open>table.__table__.columns\<close>, in order. The model classes themselves
  (\<open>openadapt.models\<close>) are outside the files at hand.
\<close>

record sa_table =
  table_name :: string
  columns :: "string list"

text \<open>
  The session \<open>db\<close> is represented by the calls on it that returned:
  \<open>db.execute(sa.insert(table), to_insert)\<close> and \<open>db.commit()\<close>. The object returned
  by \<open>db.execute\<close> is opaque.
\<close>

datatype db_op = Execute string "pydict list" | Commit

type_synonym session = "db_op list"

datatype cursor_result = CursorResult

text \<open>
  The session is library code and either call on it may raise (a locked database, a
  constraint the row violates). What the session does in one call of \<open>_insert\<close> is an
  input of the model: both calls return, or \<open>db.execute\<close> raises, or \<open>db.execute\<close>
  returns and \<open>db.commit\<close> raises.
\<close>

datatype db_outcome = Returns | ExecuteRaises | CommitRaises

definition BATCH_SIZE :: nat where
  "BATCH_SIZE = 1"

text \<open>\<open>db_obj = {column.name: None for column in table.__table__.columns}\<close>\<close>

definition empty_row :: "sa_table \<Rightarrow> pydict" where
  "empty_row table = foldl (\<lambda>d c. AList.update c PyNone d) [] (columns table)"

text \<open>
  The loop \<open>for key in db_obj\<close>: a key that is in \<open>event_data\<close> has its value moved
  from \<open>event_data\<close> to \<open>db_obj\<close>. The result is the pair of both dictionaries after
  the loop.
\<close>

fun move_keys :: "string list \<Rightarrow> pydict \<Rightarrow> pydict \<Rightarrow> pydict \<times> pydict" where
  "move_keys [] db_obj event_data = (db_obj, event_data)"
| "move_keys (key # keys) db_obj event_data =
     (case map_of event_data key of
        Some val \<Rightarrow> move_keys keys (AList.update key val db_obj) (AList.delete key event_data)
      | None \<Rightarrow> move_keys keys db_obj event_data)"

text \<open>The row \<open>db_obj\<close> as it is after that loop, for the empty row of the table.\<close>

definition build_row :: "pydict \<Rightarrow> sa_table \<Rightarrow> pydict" where
  "build_row event_data table =
     fst (move_keys (map fst (empty_row table)) (empty_row table) event_data)"

text \<open>
  \<open>_insert(event_data, table, buffer)\<close>, with the session passed explicitly. The
  result is the exception raised or the value returned, together with the buffer and the
  session as the call leaves them. The assertion comes before the buffer and the session
  are touched. \<open>buffer.append(db_obj)\<close> comes before \<open>db.execute\<close> and
  \<open>buffer.clear()\<close> after \<open>db.commit()\<close>, with no handler around them: when either
  call raises, the exception leaves \<open>_insert\<close> and the row stays in the buffer.
\<close>

definition crud_insert ::
  "pydict \<Rightarrow> sa_table \<Rightarrow> pydict list option \<Rightarrow> session \<Rightarrow> db_outcome
     \<Rightarrow> (error + cursor_result option) \<times> pydict list option \<times> session" where
  "crud_insert event_data table buffer db outcome =
     (case move_keys (map fst (empty_row table)) (empty_row table) event_data of
        (db_obj, event_data') \<Rightarrow>
          if event_data' \<noteq> [] then (Inl (AssertionError event_data'), buffer, db)
          else
            (case buffer of
               None \<Rightarrow>
                 (case outcome of
                    ExecuteRaises \<Rightarrow> (Inl DatabaseError, None, db)
                  | CommitRaises \<Rightarrow>
                      (Inl DatabaseError, None, db @ [Execute (table_name table) [db_obj]])
                  | Returns \<Rightarrow>
                      (Inr (Some CursorResult), None,
                       db @ [Execute (table_name table) [db_obj], Commit]))
             | Some b \<Rightarrow>
                 let b' = b @ [db_obj] in
                 if BATCH_SIZE \<le> length b' then
                   let to_insert = (if b' \<noteq> [] then b' else [db_obj]) in
                   (case outcome of
                      ExecuteRaises \<Rightarrow> (Inl DatabaseError, Some b', db)
                    | CommitRaises \<Rightarrow>
                        (Inl DatabaseError, Some b', db @ [Execute (table_name table) to_insert])
                    | Returns \<Rightarrow>
                        (Inr (Some CursorResult),
                         Some (if b' \<noteq> [] then [] else b'),
                         db @ [Execute (table_name table) to_insert, Commit]))
                 else (Inr None, Some b', db)))"

text \<open>The attributes of a \<open>Recording\<close> that the functions modelled here read or write.\<close>

record Recording =
  rec_id :: int
  rec_timestamp :: pyval
  task_description :: string

text \<open>The five model classes the \<open>insert_*\<close> functions pass to \<open>_insert\<close>.\<close>

record models =
  ActionEvent_table :: sa_table
  Screenshot_table :: sa_table
  WindowEvent_table :: sa_table
  PerformanceStat_table :: sa_table
  MemoryStat_table :: sa_table

text \<open>The module-level state of \<open>crud.py\<close>: the session and the five buffers.\<close>

record crud_state =
  db :: session
  action_events :: "pydict list"
  screenshots :: "pydict list"
  window_events :: "pydict list"
  performance_stats :: "pydict list"
  memory_stats :: "pydict list"

definition initial_state :: crud_state where
  "initial_state =
     \<lparr>db = [], action_events = [], screenshots = [], window_events = [],
      performance_stats = [], memory_stats = []\<rparr>"

text \<open>
  The dictionary \<open>{**event_data, "timestamp": ..., "recording_id": ...,
  "recording_timestamp": ...}\<close> built by the three event inserts.
\<close>

definition with_recording :: "pydict \<Rightarrow> pyval \<Rightarrow> Recording \<Rightarrow> pydict" where
  "with_recording event_data event_timestamp recording =
     AList.update ''recording_timestamp'' (rec_timestamp recording)
       (AList.update ''recording_id'' (PyInt (rec_id recording))
         (AList.update ''timestamp'' event_timestamp event_data))"

text \<open>
  The \<open>insert_*\<close> functions return \<open>None\<close>; the model returns the exception that
  left the call, if any, and the module state after the call.
\<close>

definition insert_action_event ::
  "models \<Rightarrow> Recording \<Rightarrow> pyval \<Rightarrow> pydict \<Rightarrow> db_outcome \<Rightarrow> crud_state
     \<Rightarrow> error option \<times> crud_state" where
  "insert_action_event m recording event_timestamp event_data outcome st =
     (case crud_insert
             (with_recording event_data event_timestamp recording)
             (ActionEvent_table m) (Some (action_events st)) (db st) outcome of
        (res, buffer, db') \<Rightarrow>
          ((case res of Inl err \<Rightarrow> Some err | Inr r \<Rightarrow> None),
           st\<lparr>db := db',
              action_events := (case buffer of Some b \<Rightarrow> b | None \<Rightarrow> action_events st)\<rparr>))"

definition insert_screenshot ::
  "models \<Rightarrow> Recording \<Rightarrow> pyval \<Rightarrow> pydict \<Rightarrow> db_outcome \<Rightarrow> crud_state
     \<Rightarrow> error option \<times> crud_state" where
  "insert_screenshot m recording event_timestamp event_data outcome st =
     (case crud_insert
             (with_recording event_data event_timestamp recording)
             (Screenshot_table m) (Some (screenshots st)) (db st) outcome of
        (res, buffer, db') \<Rightarrow>
          ((case res of Inl err \<Rightarrow> Some err | Inr r \<Rightarrow> None),
           st\<lparr>db := db',
              screenshots := (case buffer of Some b \<Rightarrow> b | None \<Rightarrow> screenshots st)\<rparr>))"

definition insert_window_event ::
  "models \<Rightarrow> Recording \<Rightarrow> pyval \<Rightarrow> pydict \<Rightarrow> db_outcome \<Rightarrow> crud_state
     \<Rightarrow> error option \<times> crud_state" where
  "insert_window_event m recording event_timestamp event_data outcome st =
     (case crud_insert
             (with_recording event_data event_timestamp recording)
             (WindowEvent_table m) (Some (window_events st)) (db st) outcome of
        (res, buffer, db') \<Rightarrow>
          ((case res of Inl err \<Rightarrow> Some err | Inr r \<Rightarrow> None),
           st\<lparr>db := db',
              window_events := (case buffer of Some b \<Rightarrow> b | None \<Rightarrow> window_events st)\<rparr>))"

definition insert_perf_stat ::
  "models \<Rightarrow> Recording \<Rightarrow> string \<Rightarrow> pyval \<Rightarrow> pyval \<Rightarrow> db_outcome \<Rightarrow> crud_state
     \<Rightarrow> error option \<times> crud_state" where
  "insert_perf_stat m recording event_type start_time end_time outcome st =
     (case crud_insert
             [(''recording_timestamp'', rec_timestamp recording),
              (''recording_id'', PyInt (rec_id recording)),
              (''event_type'', PyStr event_type),
              (''start_time'', start_time),
              (''end_time'', end_time)]
             (PerformanceStat_table m) (Some (performance_stats st)) (db st) outcome of
        (res, buffer, db') \<Rightarrow>
          ((case res of Inl err \<Rightarrow> Some err | Inr r \<Rightarrow> None),
           st\<lparr>db := db',
              performance_stats := (case buffer of Some b \<Rightarrow> b | None \<Rightarrow> performance_stats st)\<rparr>))"

definition insert_memory_stat ::
  "models \<Rightarrow> Recording \<Rightarrow> pyval \<Rightarrow> pyval \<Rightarrow> db_outcome \<Rightarrow> crud_state
     \<Rightarrow> error option \<times> crud_state" where
  "insert_memory_stat m recording memory_usage_bytes timestamp outcome st =
     (case crud_insert
             [(''recording_timestamp'', rec_timestamp recording),
              (''recording_id'', PyInt (rec_id recording)),
              (''memory_usage_bytes'', memory_usage_bytes),
              (''timestamp'', timestamp)]
             (MemoryStat_table m) (Some (memory_stats st)) (db st) outcome of
        (res, buffer, db') \<Rightarrow>
          ((case res of Inl err \<Rightarrow> Some err | Inr r \<Rightarrow> None),
           st\<lparr>db := db',
              memory_stats := (case buffer of Some b \<Rightarrow> b | None \<Rightarrow> memory_stats st)\<rparr>))"

text \<open>
  A call of one of the five \<open>insert_*\<close> functions with its arguments, paired with what
  the session does during it, and a client that makes a list of such calls one after the
  other, going on after a call that raised.
\<close>

datatype insert_call =
    InsertActionEvent Recording pyval pydict
  | InsertScreenshot Recording pyval pydict
  | InsertWindowEvent Recording pyval pydict
  | InsertPerfStat Recording string pyval pyval
  | InsertMemoryStat Recording pyval pyval

fun run_call ::
  "models \<Rightarrow> crud_state \<Rightarrow> insert_call \<times> db_outcome \<Rightarrow> error option \<times> crud_state" where
  "run_call m st (InsertActionEvent r t d, oc) = insert_action_event m r t d oc st"
| "run_call m st (InsertScreenshot r t d, oc) = insert_screenshot m r t d oc st"
| "run_call m st (InsertWindowEvent r t d, oc) = insert_window_event m r t d oc st"
| "run_call m st (InsertPerfStat r ty t0 t1, oc) = insert_perf_stat m r ty t0 t1 oc st"
| "run_call m st (InsertMemoryStat r b t, oc) = insert_memory_stat m r b t oc st"

definition run_calls ::
  "models \<Rightarrow> crud_state \<Rightarrow> (insert_call \<times> db_outcome) list \<Rightarrow> crud_state" where
  "run_calls m st calls = foldl (\<lambda>s c. snd (run_call m s c)) st calls"

definition buffers_empty :: "crud_state \<Rightarrow> bool" where
  "buffers_empty st \<longleftrightarrow>
     action_events st = [] \<and> screenshots st = [] \<and> window_events st = []
     \<and> performance_stats st = [] \<and> memory_stats st = []"

text \<open>A recording and five tables used in the examples below.\<close>

definition example_recording :: Recording where
  "example_recording = \<lparr>rec_id = 1, rec_timestamp = PyInt 100, task_description = ''demo''\<rparr>"

definition example_models :: models where
  "example_models =
     \<lparr>ActionEvent_table = \<lparr>table_name = ''action_event'', columns = [''id'', ''name'']\<rparr>,
      Screenshot_table = \<lparr>table_name = ''screenshot'', columns = [''id'']\<rparr>,
      WindowEvent_table = \<lparr>table_name = ''window_event'', columns = [''id'']\<rparr>,
      PerformanceStat_table = \<lparr>table_name = ''performance_stat'', columns = [''id'']\<rparr>,
      MemoryStat_table =
        \<lparr>table_name = ''memory_stat'',
         columns = [''id'', ''recording_timestamp'', ''recording_id'', ''memory_usage_bytes'',
                    ''timestamp'']\<rparr>\<rparr>"

section \<open>Scrubbing a recording\<close>

text \<open>\<open>db.query(Recording).filter_by(id=recording_id).first()\<close> over the stored recordings.\<close>

definition get_recording_by_id :: "Recording list \<Rightarrow> int \<Rightarrow> Recording option" where
  "get_recording_by_id recordings recording_id = find (\<lambda>r. rec_id r = recording_id) recordings"

text \<open>The two messages \<open>scrub_recording\<close> logs; the second one formats its argument.\<close>

datatype 'a log_entry = ScrubbingNotEnabled | RecordingNotFound 'a

text \<open>
  \<open>crud.scrub_recording(recording_id)\<close> up to the point where the task description of
  the fetched recording has been scrubbed. \<open>config.SCRUB_ENABLED\<close>, the scrubber's
  \<open>scrub_text\<close> and the stored recordings are parameters. The argument is declared an
  \<open>int\<close> but is only formatted into a log message, so its type is left open. The result
  is what was logged and the recording being scrubbed, if any.
\<close>

definition scrub_recording ::
  "bool \<Rightarrow> (string \<Rightarrow> string) \<Rightarrow> Recording list \<Rightarrow> 'a \<Rightarrow> 'a log_entry list \<times> Recording option" where
  "scrub_recording SCRUB_ENABLED scrub_text recordings recording_id =
     (if \<not> SCRUB_ENABLED then ([ScrubbingNotEnabled], None)
      else case get_recording_by_id recordings 2 of
             None \<Rightarrow> ([RecordingNotFound recording_id], None)
           | Some recording \<Rightarrow>
               ([], Some (recording\<lparr>task_description := scrub_text (task_description recording)\<rparr>)))"

text \<open>
  The route \<open>/scrub/{recording_id}\<close> (\<open>RecordingsAPI.scrub_recording\<close>): it looks the
  recording up by the id of the request and passes the recording it found to
  \<open>crud.scrub_recording\<close>. The result is the message of the response and, when
  \<open>crud.scrub_recording\<close> was called, its result.
\<close>

definition api_scrub_recording ::
  "bool \<Rightarrow> (string \<Rightarrow> string) \<Rightarrow> Recording list \<Rightarrow> int
     \<Rightarrow> string \<times> (Recording log_entry list \<times> Recording option) option" where
  "api_scrub_recording SCRUB_ENABLED scrub_text recordings recording_id =
     (case get_recording_by_id recordings recording_id of
        None \<Rightarrow> (''Recording not found'', None)
      | Some recording \<Rightarrow>
          (''abc'', Some (scrub_recording SCRUB_ENABLED scrub_text recordings recording)))"

section \<open>Schema migrations\<close>

text \<open>
  A schema is the list of its tables, each with its columns in order. Of a column the
  migrations give the name, the type and whether it is nullable.
\<close>

datatype sa_type = JSON | Integer | String | Numeric | LargeBinary

record sa_column =
  column_name :: string
  column_type :: sa_type
  nullable :: bool

type_synonym schema = "(string \<times> sa_column list) list"

datatype schema_error = NoSuchTable string | DuplicateColumn string | NoSuchColumn string

text \<open>
  \<open>batch_op.add_column\<close> and \<open>batch_op.drop_column\<close> inside
  \<open>op.batch_alter_table(table)\<close>: the table must exist; a column is added at the end
  unless one of that name is there; a column is dropped if it is there.
\<close>

definition add_column :: "string \<Rightarrow> sa_column \<Rightarrow> schema \<Rightarrow> schema_error + schema" where
  "add_column table col s =
     (case map_of s table of
        None \<Rightarrow> Inl (NoSuchTable table)
      | Some cols \<Rightarrow>
          if column_name col \<in> set (map column_name cols) then Inl (DuplicateColumn (column_name col))
          else Inr (AList.update table (cols @ [col]) s))"

definition drop_column :: "string \<Rightarrow> string \<Rightarrow> schema \<Rightarrow> schema_error + schema" where
  "drop_column table cname s =
     (case map_of s table of
        None \<Rightarrow> Inl (NoSuchTable table)
      | Some cols \<Rightarrow>
          if cname \<notin> set (map column_name cols) then Inl (NoSuchColumn cname)
          else Inr (AList.update table (filter (\<lambda>c. column_name c \<noteq> cname) cols) s))"

text \<open>Revision \<open>57d78d23087a\<close> (add \<open>WindowEvent.state\<close>).\<close>

definition upgrade_57d78d23087a :: "schema \<Rightarrow> schema_error + schema" where
  "upgrade_57d78d23087a =
     add_column ''window_event'' \<lparr>column_name = ''state'', column_type = JSON, nullable = True\<rparr>"

definition downgrade_57d78d23087a :: "schema \<Rightarrow> schema_error + schema" where
  "downgrade_57d78d23087a = drop_column ''window_event'' ''state''"

text \<open>Revision \<open>8495f5471e23\<close> (add \<open>Recording.config\<close>).\<close>

definition upgrade_8495f5471e23 :: "schema \<Rightarrow> schema_error + schema" where
  "upgrade_8495f5471e23 =
     add_column ''recording'' \<lparr>column_name = ''config'', column_type = JSON, nullable = True\<rparr>"

definition downgrade_8495f5471e23 :: "schema \<Rightarrow> schema_error + schema" where
  "downgrade_8495f5471e23 = drop_column ''recording'' ''config''"

section \<open>Properties of the stop-sequence filter\<close>

lemmas ev_defs =
  press_def release_def press_named_def press_matches_def release_in_def key_in_def
  py_index_def ctrl_c_tail_def

lemma scan_indices_start: "idx \<in> set (scan_indices seq es idx)"
  by (cases es) simp_all

lemma py_index_in_range:
  "0 \<le> i \<Longrightarrow> i < int (length seq) \<Longrightarrow> py_index seq i = Inr (seq ! nat i)"
  by (simp add: py_index_def)

lemma scan_without_completion:
  assumes "0 \<le> idx" and "idx < int (length seq)"
      and "- 1 \<notin> set (scan_indices seq es idx)"
  shows "\<exists>idx' n'. scan seq es idx n = Inr (idx', n') \<and> 0 \<le> idx'"
  using assms
proof (induction es arbitrary: idx n)
  case Nil
  then show ?case by simp
next
  case (Cons e es)
  have k: "py_index seq idx = Inr (seq ! nat idx)"
    using Cons.prems(1,2) by (rule py_index_in_range)
  show ?case
  proof (cases "press_matches e (seq ! nat idx)")
    case True
    have tr: "- 1 \<notin> set (scan_indices seq es (idx - 1))"
      using Cons.prems(3) k True by simp
    have "idx - 1 \<noteq> - 1"
      using tr scan_indices_start [of "idx - 1" seq es] by metis
    then have "0 \<le> idx - 1" "idx - 1 < int (length seq)"
      using Cons.prems(1,2) by simp_all
    from Cons.IH [OF this tr, of "n + 1"] show ?thesis
      using k True by simp
  next
    case False
    show ?thesis
    proof (cases "release_in e seq")
      case True
      have tr: "- 1 \<notin> set (scan_indices seq es idx)"
        using Cons.prems(3) k False True by simp
      from Cons.IH [OF Cons.prems(1,2) tr, of "n + 1"] show ?thesis
        using k False True by simp
    next
      case nr: False
      show ?thesis using k False nr Cons.prems(1) by simp
    qed
  qed
qed

lemma find_sequence_without_completion:
  assumes "\<forall>seq \<in> set seqs. - 1 \<notin> set (scan_indices seq (rev events) (int (length seq) - 1))"
  shows "\<exists>n'. find_sequence seqs events i n = Inr (- 1, n')"
  using assms
proof (induction seqs arbitrary: i n)
  case Nil
  then show ?case by simp
next
  case (Cons seq rest)
  let ?start = "int (length seq) - 1"
  have tr: "- 1 \<notin> set (scan_indices seq (rev events) ?start)"
    using Cons.prems by simp
  then have "?start \<noteq> - 1"
    using scan_indices_start [of ?start seq "rev events"] by metis
  then have "0 \<le> ?start" "?start < int (length seq)" by simp_all
  from scan_without_completion [OF this tr, of n]
  obtain idx' n' where s: "scan seq (rev events) ?start n = Inr (idx', n')" and "0 \<le> idx'"
    by blast
  then have "idx' \<noteq> - 1" by simp
  moreover have "\<exists>m. find_sequence rest events (i + 1) n' = Inr (- 1, m)"
    using Cons.IH Cons.prems by simp
  ultimately show ?case using s by simp
qed

text \<open>
  Claim C2. When the Ctrl+C test does not fire and no candidate's index
  \<open>stop_sequence_indices[i]\<close> takes the value \<open>-1\<close> at any moment of its backward
  scan, \<open>filter_stop_sequences\<close> returns normally and leaves the list of events exactly
  as it was.
\<close>

theorem no_completion_leaves_events_unmodified:
  assumes "\<not> ctrl_c_tail events"
      and "\<forall>seq \<in> set STOP_SEQUENCES.
             - 1 \<notin> set (scan_indices seq (rev events) (int (length seq) - 1))"
  shows "filter_stop_sequences STOP_SEQUENCES events = (events, None)"
proof -
  obtain n' where "find_sequence STOP_SEQUENCES events 0 0 = Inr (- 1, n')"
    using find_sequence_without_completion [OF assms(2)] by blast
  then show ?thesis
    using assms(1) by (simp add: filter_stop_sequences_def)
qed

theorem no_completion_leaves_events_unmodified_witness:
  "\<not> ctrl_c_tail [press ''a'', press ''x'', release ''b'']
   \<and> - 1 \<notin> set (scan_indices [''a'', ''b''] (rev [press ''a'', press ''x'', release ''b''])
                      (int (length [''a'', ''b'']) - 1))
   \<and> - 1 \<notin> set (scan_indices [''c''] (rev [press ''a'', press ''x'', release ''b''])
                      (int (length [''c'']) - 1))
   \<and> filter_stop_sequences [[''a'', ''b''], [''c'']] [press ''a'', press ''x'', release ''b'']
       = ([press ''a'', press ''x'', release ''b''], None)"
proof -
  let ?evs = "[press ''a'', press ''x'', release ''b'']"
  have h1: "\<not> ctrl_c_tail ?evs"
    by (simp add: ev_defs)
  have a: "- 1 \<notin> set (scan_indices [''a'', ''b''] (rev ?evs) (int (length [''a'', ''b'']) - 1))"
    by (simp add: ev_defs)
  have b: "- 1 \<notin> set (scan_indices [''c''] (rev ?evs) (int (length [''c'']) - 1))"
    by (simp add: ev_defs)
  have h2: "\<forall>seq \<in> set [[''a'', ''b''], [''c'']].
              - 1 \<notin> set (scan_indices seq (rev ?evs) (int (length seq) - 1))"
    by (simp add: ev_defs)
  show ?thesis
    by (intro conjI h1 a b no_completion_leaves_events_unmodified [OF h1 h2])
qed

text \<open>
  Claim C6. For a list of at least two events whose last event has canonical key char
  \<open>c\<close> and whose second-to-last event has canonical key name \<open>ctrl\<close>,
  \<open>filter_stop_sequences\<close> removes exactly the two trailing events and returns,
  whatever \<open>config.STOP_SEQUENCES\<close> holds: the configured sequences are not looked at.
\<close>

theorem ctrl_c_removed_first:
  assumes "2 \<le> length events"
      and "canonical_key_char (last events) = Some ''c''"
      and "canonical_key_name (last (butlast events)) = Some ''ctrl''"
  shows "filter_stop_sequences STOP_SEQUENCES events
           = (take (length events - 2) events, None)"
proof -
  have ne: "events \<noteq> []" "butlast events \<noteq> []"
    using assms(1) by (auto simp: butlast_conv_take)
  have l1: "last events = events ! (length events - 1)"
    using ne(1) by (rule last_conv_nth)
  have l2: "last (butlast events) = events ! (length events - 2)"
    using ne(2) assms(1) by (simp add: last_conv_nth nth_butlast numeral_2_eq_2)
  have "ctrl_c_tail events"
    using assms l1 l2 by (simp add: ctrl_c_tail_def)
  moreover have "butlast (butlast events) = take (length events - 2) events"
    by (simp add: butlast_conv_take numeral_2_eq_2)
  ultimately show ?thesis by (simp add: filter_stop_sequences_def)
qed

theorem ctrl_c_removed_first_witness:
  "2 \<le> length [press ''x'', press_named ''ctrl'', press ''c'']
   \<and> canonical_key_char (last [press ''x'', press_named ''ctrl'', press ''c'']) = Some ''c''
   \<and> canonical_key_name (last (butlast [press ''x'', press_named ''ctrl'', press ''c''])) = Some ''ctrl''
   \<and> filter_stop_sequences [[], [''c'']] [press ''x'', press_named ''ctrl'', press ''c'']
       = (take (length [press ''x'', press_named ''ctrl'', press ''c''] - 2) [press ''x'', press_named ''ctrl'', press ''c''], None)"
proof -
  let ?evs = "[press ''x'', press_named ''ctrl'', press ''c'']"
  have h1: "2 \<le> length ?evs" by simp
  have h2: "canonical_key_char (last ?evs) = Some ''c''" by (simp add: press_def)
  have h3: "canonical_key_name (last (butlast ?evs)) = Some ''ctrl''" by (simp add: press_named_def)
  show ?thesis
    by (intro conjI h1 h2 h3 ctrl_c_removed_first [OF h1 h2 h3])
qed

text \<open>
  One iteration of the inner loop, when the sequence element at the current index can
  be read: a release whose key is in the candidate is counted and leaves the index
  alone, a press is counted and moves the index exactly when its key equals that
  element, anything else ends the loop.
\<close>

lemma scan_release_step:
  assumes "py_index seq idx = Inr k" and "release_in e seq"
  shows "scan seq (e # es) idx n = scan seq es idx (n + 1)"
  using assms by (auto simp: press_matches_def release_in_def)

lemma scan_press_step:
  assumes "py_index seq idx = Inr k" and "name e = Some ''press''"
  shows "scan seq (e # es) idx n =
           (if canonical_key_char e = Some k \<or> canonical_key_name e = Some k
            then scan seq es (idx - 1) (n + 1) else Inr (idx, n))"
  using assms by (auto simp: press_matches_def release_in_def)

lemma scan_break_step:
  assumes "py_index seq idx = Inr k" and "\<not> press_matches e k" and "\<not> release_in e seq"
  shows "scan seq (e # es) idx n = Inr (idx, n)"
  using assms by simp

text \<open>
  Claim C1, at \<open>STOP_SEQUENCES = [["a", "b"], ["b"]]\<close> and the events
  \<open>[press x, press b]\<close>. The scan of the winning sequence \<open>["b"]\<close> matches one
  event. \<open>num_to_remove\<close> is not reset between candidates, and the scan of
  \<open>["a", "b"]\<close>, which does not complete, has counted the same press of \<open>b\<close> before:
  two events are popped, the unrelated press of \<open>x\<close> among them.
\<close>

theorem num_to_remove_accumulates_across_candidates:
  "scan [''b''] (rev [press ''x'', press ''b'']) (int (length [''b'']) - 1) 0 = Inr (- 1, 1)
   \<and> find_sequence [[''a'', ''b''], [''b'']] [press ''x'', press ''b''] 0 0 = Inr (1, 2)
   \<and> filter_stop_sequences [[''a'', ''b''], [''b'']] [press ''x'', press ''b''] = ([], None)"
  by (simp add: ev_defs filter_stop_sequences_def)

text \<open>
  Claim C3, at \<open>STOP_SEQUENCES = [["a"], ["a", "a", "a"], ["b", "a", "a", "a"]]\<close> and
  the events \<open>[press b, press a, press a, press a]\<close>. The scans of the second and of
  the third sequence, each taken alone, complete. The call removes neither occurrence:
  the scan of the first sequence runs past the completed match, its index wraps to
  \<open>-2\<close>, and reading \<open>["a"][-2]\<close> raises \<open>IndexError\<close>.
\<close>

theorem earlier_candidate_raises_before_first_match:
  "scan [''a'', ''a'', ''a''] (rev [press ''b'', press ''a'', press ''a'', press ''a'']) 2 0 = Inr (- 1, 3)
   \<and> scan [''b'', ''a'', ''a'', ''a''] (rev [press ''b'', press ''a'', press ''a'', press ''a'']) 3 0 = Inr (- 1, 4)
   \<and> filter_stop_sequences [[''a''], [''a'', ''a'', ''a''], [''b'', ''a'', ''a'', ''a'']]
        [press ''b'', press ''a'', press ''a'', press ''a'']
      = ([press ''b'', press ''a'', press ''a'', press ''a''], Some IndexError)"
  by (simp add: ev_defs filter_stop_sequences_def)

text \<open>
  Claim C4, at \<open>STOP_SEQUENCES = [["a"]]\<close> and the events
  \<open>[release a, press a, press a]\<close>. The release of \<open>a\<close> is a release whose key is in
  the candidate. When the scan reaches it the index is \<open>-2\<close>, reading \<open>["a"][-2]\<close>
  raises \<open>IndexError\<close> before the release branch is tested, and the release is not
  counted.
\<close>

theorem release_after_overrun_raises:
  "release_in (release ''a'') [''a'']
   \<and> scan_indices [''a''] (rev [release ''a'', press ''a'', press ''a'']) 0 = [0, - 1, - 2]
   \<and> scan [''a''] (rev [release ''a'', press ''a'', press ''a'']) 0 0 = Inl IndexError
   \<and> filter_stop_sequences [[''a'']] [release ''a'', press ''a'', press ''a'']
      = ([release ''a'', press ''a'', press ''a''], Some IndexError)"
  by (simp add: ev_defs filter_stop_sequences_def)

text \<open>
  Claim C5, at \<open>STOP_SEQUENCES = [["a", "b"]]\<close> and the events
  \<open>[press b, press a, press b]\<close>. After the presses of \<open>b\<close> and \<open>a\<close> at the tail
  have completed the sequence the index is \<open>-1\<close>; the scan goes on, the earlier press
  of \<open>b\<close> is compared with \<open>["a", "b"][-1]\<close>, the last element again, and is
  counted. The index ends at \<open>-2\<close> and the completed occurrence is not removed.
\<close>

theorem press_matches_consumed_position:
  "scan_indices [''a'', ''b''] (rev [press ''b'', press ''a'', press ''b'']) 1 = [1, 0, - 1, - 2]
   \<and> scan [''a'', ''b''] (rev [press ''b'', press ''a'', press ''b'']) 1 0 = Inr (- 2, 3)
   \<and> filter_stop_sequences [[''a'', ''b'']] [press ''b'', press ''a'', press ''b'']
      = ([press ''b'', press ''a'', press ''b''], None)"
  by (simp add: ev_defs filter_stop_sequences_def)

text \<open>
  The order of the candidates. The count a scan returns is the count it was entered with
  plus what the scan from zero returns; and when the scans of all candidates before
  position \<open>i\<close> end without raising and without completing, and the scan of the
  candidate at \<open>i\<close> completes, the outer loop stops there with
  \<open>sequence_to_remove = i\<close>, whatever the later candidates would do.
\<close>

lemma scan_num_shift:
  "scan seq es idx n
     = (case scan seq es idx 0 of Inl err \<Rightarrow> Inl err | Inr (i, k) \<Rightarrow> Inr (i, n + k))"
proof (induction es arbitrary: idx n)
  case Nil
  then show ?case by simp
next
  case (Cons e es)
  show ?case
  proof (cases "py_index seq idx")
    case (Inl err)
    then show ?thesis by simp
  next
    case (Inr k)
    show ?thesis
      using Inr Cons.IH [of "idx - 1" "n + 1"] Cons.IH [of "idx - 1" 1]
            Cons.IH [of idx "n + 1"] Cons.IH [of idx 1]
      by (auto split: sum.splits)
  qed
qed

lemma first_completed_candidate_selected:
  assumes "i < length seqs"
      and "\<exists>k. scan (seqs ! i) (rev evs) (int (length (seqs ! i)) - 1) 0 = Inr (- 1, k)"
      and "\<forall>j<i. \<exists>idx k. scan (seqs ! j) (rev evs) (int (length (seqs ! j)) - 1) 0 = Inr (idx, k)
                       \<and> idx \<noteq> - 1"
  shows "\<exists>n. find_sequence seqs evs b n0 = Inr (int (b + i), n)"
  using assms
proof (induction seqs arbitrary: i b n0)
  case Nil
  then show ?case by simp
next
  case (Cons seq rest)
  show ?case
  proof (cases i)
    case 0
    then obtain k where "scan seq (rev evs) (int (length seq) - 1) 0 = Inr (- 1, k)"
      using Cons.prems(2) by auto
    then have "scan seq (rev evs) (int (length seq) - 1) n0 = Inr (- 1, n0 + k)"
      using scan_num_shift [of seq "rev evs" "int (length seq) - 1" n0] by simp
    then show ?thesis using 0 by simp
  next
    case (Suc i')
    obtain idx k where s: "scan seq (rev evs) (int (length seq) - 1) 0 = Inr (idx, k)"
      and ne: "idx \<noteq> - 1"
      using Cons.prems(3) Suc by force
    have s': "scan seq (rev evs) (int (length seq) - 1) n0 = Inr (idx, n0 + k)"
      using s scan_num_shift [of seq "rev evs" "int (length seq) - 1" n0] by simp
    have p1: "i' < length rest" using Cons.prems(1) Suc by simp
    have p2: "\<exists>k. scan (rest ! i') (rev evs) (int (length (rest ! i')) - 1) 0 = Inr (- 1, k)"
      using Cons.prems(2) Suc by simp
    have p3: "\<forall>j<i'. \<exists>idx k. scan (rest ! j) (rev evs) (int (length (rest ! j)) - 1) 0 = Inr (idx, k)
                       \<and> idx \<noteq> - 1"
    proof (intro allI impI)
      fix j assume "j < i'"
      then have "Suc j < i" using Suc by simp
      from Cons.prems(3) [rule_format, OF this] show
        "\<exists>idx k. scan (rest ! j) (rev evs) (int (length (rest ! j)) - 1) 0 = Inr (idx, k) \<and> idx \<noteq> - 1"
        by simp
    qed
    from Cons.IH [OF p1 p2 p3, of "b + 1" "n0 + k"]
    obtain n where "find_sequence rest evs (b + 1) (n0 + k) = Inr (int (b + 1 + i'), n)" by blast
    then show ?thesis using s' ne Suc by simp
  qed
qed

section \<open>Properties of the buffered inserts\<close>

lemma map_of_foldl_update:
  "map_of (foldl (\<lambda>d c. AList.update c v d) d0 cols) k
     = (if k \<in> set cols then Some v else map_of d0 k)"
  by (induction cols arbitrary: d0) (auto simp: update_conv')

lemma map_of_empty_row:
  "map_of (empty_row table) k = (if k \<in> set (columns table) then Some PyNone else None)"
  by (simp add: empty_row_def map_of_foldl_update)

lemma keys_empty_row: "set (map fst (empty_row table)) = set (columns table)"
proof -
  have "fst ` set (empty_row table) = dom (map_of (empty_row table))"
    by (simp add: dom_map_of_conv_image_fst)
  also have "\<dots> = set (columns table)"
    by (auto simp: dom_def map_of_empty_row)
  finally show ?thesis by simp
qed

lemma move_keys_left:
  "snd (move_keys keys db_obj event_data) = filter (\<lambda>(k, v). k \<notin> set keys) event_data"
proof (induction keys arbitrary: db_obj event_data)
  case Nil
  then show ?case by simp
next
  case (Cons key keys)
  show ?case
  proof (cases "map_of event_data key")
    case None
    then have "key \<notin> fst ` set event_data"
      by (simp add: map_of_eq_None_iff)
    then have "filter (\<lambda>(k, v). k \<notin> set (key # keys)) event_data
                 = filter (\<lambda>(k, v). k \<notin> set keys) event_data"
      by (intro filter_cong) (auto simp: image_iff)
    then show ?thesis using None Cons.IH by simp
  next
    case (Some val)
    have "filter (\<lambda>(k, v). k \<notin> set keys) (AList.delete key event_data)
            = filter (\<lambda>(k, v). k \<notin> set (key # keys)) event_data"
      by (auto simp: AList.delete_eq intro: filter_cong)
    then show ?thesis using Some Cons.IH by simp
  qed
qed

lemma move_keys_row:
  "map_of (fst (move_keys keys db_obj event_data)) c
     = (if c \<in> set keys \<and> map_of event_data c \<noteq> None then map_of event_data c
        else map_of db_obj c)"
proof (induction keys arbitrary: db_obj event_data)
  case Nil
  then show ?case by simp
next
  case (Cons key keys)
  show ?case
  proof (cases "map_of event_data key")
    case None
    then show ?thesis using Cons.IH by auto
  next
    case (Some val)
    then show ?thesis using Cons.IH
      by (auto simp: update_conv' delete_conv')
  qed
qed

lemma move_keys_row_keys:
  "fst ` set (fst (move_keys keys db_obj event_data)) = fst ` set db_obj \<union> {k \<in> set keys. map_of event_data k \<noteq> None}"
proof -
  have "dom (map_of (fst (move_keys keys db_obj event_data))) = dom (map_of db_obj) \<union> {k \<in> set keys. map_of event_data k \<noteq> None}"
    by (auto simp: dom_def move_keys_row)
  then show ?thesis by (simp add: dom_map_of_conv_image_fst)
qed


lemma leftover_empty_iff:
  "snd (move_keys (map fst (empty_row table)) (empty_row table) event_data) = []
     \<longleftrightarrow> fst ` set event_data \<subseteq> set (columns table)"
proof -
  have "filter (\<lambda>(k, v). k \<notin> set (columns table)) event_data = []
          \<longleftrightarrow> fst ` set event_data \<subseteq> set (columns table)"
    by (auto simp: filter_empty_conv)
  then show ?thesis
    using keys_empty_row [of table] by (simp add: move_keys_left)
qed

lemma build_row_value:
  "map_of (build_row event_data table) c
     = (if c \<in> set (columns table)
        then Some (case map_of event_data c of None \<Rightarrow> PyNone | Some v \<Rightarrow> v) else None)"
  using keys_empty_row [of table]
  by (auto simp: build_row_def move_keys_row map_of_empty_row)

lemma build_row_keys: "fst ` set (build_row event_data table) = set (columns table)"
proof -
  have "dom (map_of (build_row event_data table)) = set (columns table)"
    by (auto simp: dom_def build_row_value)
  then show ?thesis by (simp add: dom_map_of_conv_image_fst)
qed

lemma leftover_filter:
  "snd (move_keys (map fst (empty_row table)) (empty_row table) event_data)
     = filter (\<lambda>(k, v). k \<notin> set (columns table)) event_data"
  using keys_empty_row [of table] by (simp add: move_keys_left)

lemma crud_insert_unknown_key:
  assumes "\<not> fst ` set event_data \<subseteq> set (columns table)"
  shows "crud_insert event_data table buffer d outcome
           = (Inl (AssertionError (filter (\<lambda>(k, v). k \<notin> set (columns table)) event_data)),
              buffer, d)"
proof -
  obtain db_obj left
    where mk: "move_keys (map fst (empty_row table)) (empty_row table) event_data = (db_obj, left)"
    by (cases "move_keys (map fst (empty_row table)) (empty_row table) event_data")
  have "left \<noteq> []"
    using assms leftover_empty_iff [of table event_data] mk by simp
  moreover have "left = filter (\<lambda>(k, v). k \<notin> set (columns table)) event_data"
    using leftover_filter [of table event_data] mk by simp
  ultimately show ?thesis
    by (simp add: crud_insert_def mk)
qed

lemma crud_insert_known_keys:
  assumes "fst ` set event_data \<subseteq> set (columns table)"
  shows "crud_insert event_data table buffer d outcome
           = (case outcome of
                Returns \<Rightarrow>
                  (Inr (Some CursorResult), map_option (\<lambda>b. []) buffer,
                   d @ [Execute (table_name table)
                          ((case buffer of None \<Rightarrow> [] | Some b \<Rightarrow> b) @ [build_row event_data table]),
                        Commit])
              | ExecuteRaises \<Rightarrow>
                  (Inl DatabaseError,
                   map_option (\<lambda>b. b @ [build_row event_data table]) buffer, d)
              | CommitRaises \<Rightarrow>
                  (Inl DatabaseError,
                   map_option (\<lambda>b. b @ [build_row event_data table]) buffer,
                   d @ [Execute (table_name table)
                          ((case buffer of None \<Rightarrow> [] | Some b \<Rightarrow> b) @ [build_row event_data table])]))"
proof -
  obtain db_obj left
    where mk: "move_keys (map fst (empty_row table)) (empty_row table) event_data = (db_obj, left)"
    by (cases "move_keys (map fst (empty_row table)) (empty_row table) event_data")
  have l: "left = []"
    using assms leftover_empty_iff [of table event_data] mk by simp
  have r: "build_row event_data table = db_obj"
    using mk by (simp add: build_row_def)
  show ?thesis
    unfolding r
    by (cases outcome; cases buffer)
       (simp_all add: crud_insert_def mk l BATCH_SIZE_def Let_def)
qed

lemma crud_insert_raises_iff:
  "(\<exists>msg. fst (crud_insert event_data table buffer d outcome) = Inl (AssertionError msg))
     \<longleftrightarrow> \<not> fst ` set event_data \<subseteq> set (columns table)"
proof (cases "fst ` set event_data \<subseteq> set (columns table)")
  case True
  show ?thesis
    using True crud_insert_known_keys [OF True, of buffer d outcome]
    by (cases outcome) simp_all
next
  case False
  show ?thesis
    using False crud_insert_unknown_key [OF False, of buffer d outcome] by simp
qed

text \<open>
  Claim C10. \<open>_insert\<close> raises \<open>AssertionError\<close> exactly when \<open>event_data\<close> has a
  key that is not a column name of the table, whatever the session does. When every key
  is a column name the assertion does not fire, and the row the call appends to the
  buffer and hands to \<open>db.execute\<close> (after the rows already in the buffer, if there is
  one) has exactly the columns of the table, each holding the value given for it in
  \<open>event_data\<close>, or \<open>None\<close> when none was given; the call then returns, or raises
  what the session raised.
\<close>

theorem insert_asserts_iff_unknown_key:
  "((\<exists>msg. fst (crud_insert event_data table buffer d outcome) = Inl (AssertionError msg))
      \<longleftrightarrow> (\<exists>k \<in> fst ` set event_data. k \<notin> set (columns table)))
   \<and> (fst ` set event_data \<subseteq> set (columns table) \<longrightarrow>
        crud_insert event_data table buffer d outcome
          = (case outcome of
                Returns \<Rightarrow>
                  (Inr (Some CursorResult), map_option (\<lambda>b. []) buffer,
                   d @ [Execute (table_name table)
                          ((case buffer of None \<Rightarrow> [] | Some b \<Rightarrow> b) @ [build_row event_data table]),
                        Commit])
              | ExecuteRaises \<Rightarrow>
                  (Inl DatabaseError,
                   map_option (\<lambda>b. b @ [build_row event_data table]) buffer, d)
              | CommitRaises \<Rightarrow>
                  (Inl DatabaseError,
                   map_option (\<lambda>b. b @ [build_row event_data table]) buffer,
                   d @ [Execute (table_name table)
                          ((case buffer of None \<Rightarrow> [] | Some b \<Rightarrow> b) @ [build_row event_data table])]))
        \<and> fst ` set (build_row event_data table) = set (columns table)
        \<and> (\<forall>c \<in> set (columns table).
              map_of (build_row event_data table) c
                = Some (case map_of event_data c of None \<Rightarrow> PyNone | Some v \<Rightarrow> v)))"
proof (intro conjI impI)
  show "(\<exists>msg. fst (crud_insert event_data table buffer d outcome) = Inl (AssertionError msg))
          \<longleftrightarrow> (\<exists>k \<in> fst ` set event_data. k \<notin> set (columns table))"
    unfolding crud_insert_raises_iff by blast
next
  assume "fst ` set event_data \<subseteq> set (columns table)"
  then show "crud_insert event_data table buffer d outcome
          = (case outcome of
                Returns \<Rightarrow>
                  (Inr (Some CursorResult), map_option (\<lambda>b. []) buffer,
                   d @ [Execute (table_name table)
                          ((case buffer of None \<Rightarrow> [] | Some b \<Rightarrow> b) @ [build_row event_data table]),
                        Commit])
              | ExecuteRaises \<Rightarrow>
                  (Inl DatabaseError,
                   map_option (\<lambda>b. b @ [build_row event_data table]) buffer, d)
              | CommitRaises \<Rightarrow>
                  (Inl DatabaseError,
                   map_option (\<lambda>b. b @ [build_row event_data table]) buffer,
                   d @ [Execute (table_name table)
                          ((case buffer of None \<Rightarrow> [] | Some b \<Rightarrow> b) @ [build_row event_data table])]))"
    by (rule crud_insert_known_keys)
next
  show "fst ` set (build_row event_data table) = set (columns table)"
    by (rule build_row_keys)
next
  show "\<forall>c \<in> set (columns table).
          map_of (build_row event_data table) c
            = Some (case map_of event_data c of None \<Rightarrow> PyNone | Some v \<Rightarrow> v)"
    by (simp add: build_row_value)
qed

theorem insert_asserts_iff_unknown_key_witness:
  "fst ` set [(''name'', PyStr ''press'')]
     \<subseteq> set (columns \<lparr>table_name = ''action_event'', columns = [''id'', ''name'']\<rparr>)
   \<and> crud_insert [(''name'', PyStr ''press'')]
        \<lparr>table_name = ''action_event'', columns = [''id'', ''name'']\<rparr> None [] Returns
       = (Inr (Some CursorResult), None,
          [Execute ''action_event'' [[(''id'', PyNone), (''name'', PyStr ''press'')]], Commit])"
proof -
  let ?ed = "[(''name'', PyStr ''press'')]"
  let ?t = "\<lparr>table_name = ''action_event'', columns = [''id'', ''name'']\<rparr>"
  have h: "fst ` set ?ed \<subseteq> set (columns ?t)" by simp
  have r: "build_row ?ed ?t = [(''id'', PyNone), (''name'', PyStr ''press'')]"
    by (simp add: build_row_def empty_row_def)
  note c = insert_asserts_iff_unknown_key
             [of ?ed ?t None "[]" Returns, THEN conjunct2, THEN mp, OF h, THEN conjunct1]
  have "crud_insert ?ed ?t None [] Returns
          = (Inr (Some CursorResult), None,
             [Execute ''action_event'' [[(''id'', PyNone), (''name'', PyStr ''press'')]], Commit])"
    unfolding c r by simp
  with h show ?thesis by (rule conjI)
qed

lemma crud_insert_buffered_cases:
  "(\<exists>msg. crud_insert event_data table (Some b) d Returns = (Inl (AssertionError msg), Some b, d))
   \<or> crud_insert event_data table (Some b) d Returns
        = (Inr (Some CursorResult), Some [],
           d @ [Execute (table_name table) (b @ [build_row event_data table]), Commit])"
proof (cases "fst ` set event_data \<subseteq> set (columns table)")
  case True
  from crud_insert_known_keys [OF this, of "Some b" d Returns] show ?thesis by simp
next
  case False
  from crud_insert_unknown_key [OF this, of "Some b" d Returns] show ?thesis by simp
qed

lemma insert_action_event_effect:
  assumes "action_events st = []"
  shows "(\<exists>e. insert_action_event m r t d Returns st = (Some e, st))
         \<or> (\<exists>tbl row. insert_action_event m r t d Returns st
               = (None, st\<lparr>db := db st @ [Execute tbl [row], Commit]\<rparr>))"
  using crud_insert_buffered_cases [of "with_recording d t r" "ActionEvent_table m" "action_events st" "db st"]
proof (elim disjE exE)
  fix msg
  assume "crud_insert (with_recording d t r) (ActionEvent_table m) (Some (action_events st)) (db st) Returns
            = (Inl (AssertionError msg), Some (action_events st), db st)"
  then have "insert_action_event m r t d Returns st = (Some (AssertionError msg), st)"
    by (simp add: insert_action_event_def)
  then show ?thesis by blast
next
  assume "crud_insert (with_recording d t r) (ActionEvent_table m) (Some (action_events st)) (db st) Returns
            = (Inr (Some CursorResult), Some [],
               db st @ [Execute (table_name (ActionEvent_table m)) (action_events st @ [build_row (with_recording d t r) (ActionEvent_table m)]),
                        Commit])"
  then have "insert_action_event m r t d Returns st
               = (None, st\<lparr>db := db st @ [Execute (table_name (ActionEvent_table m)) [build_row (with_recording d t r) (ActionEvent_table m)],
                                             Commit],
                           action_events := action_events st\<rparr>)"
    using assms by (simp add: insert_action_event_def)
  then have "insert_action_event m r t d Returns st
               = (None, st\<lparr>db := db st @ [Execute (table_name (ActionEvent_table m)) [build_row (with_recording d t r) (ActionEvent_table m)],
                                             Commit]\<rparr>)"
    by simp
  then show ?thesis by blast
qed

lemma insert_screenshot_effect:
  assumes "screenshots st = []"
  shows "(\<exists>e. insert_screenshot m r t d Returns st = (Some e, st))
         \<or> (\<exists>tbl row. insert_screenshot m r t d Returns st
               = (None, st\<lparr>db := db st @ [Execute tbl [row], Commit]\<rparr>))"
  using crud_insert_buffered_cases [of "with_recording d t r" "Screenshot_table m" "screenshots st" "db st"]
proof (elim disjE exE)
  fix msg
  assume "crud_insert (with_recording d t r) (Screenshot_table m) (Some (screenshots st)) (db st) Returns
            = (Inl (AssertionError msg), Some (screenshots st), db st)"
  then have "insert_screenshot m r t d Returns st = (Some (AssertionError msg), st)"
    by (simp add: insert_screenshot_def)
  then show ?thesis by blast
next
  assume "crud_insert (with_recording d t r) (Screenshot_table m) (Some (screenshots st)) (db st) Returns
            = (Inr (Some CursorResult), Some [],
               db st @ [Execute (table_name (Screenshot_table m)) (screenshots st @ [build_row (with_recording d t r) (Screenshot_table m)]),
                        Commit])"
  then have "insert_screenshot m r t d Returns st
               = (None, st\<lparr>db := db st @ [Execute (table_name (Screenshot_table m)) [build_row (with_recording d t r) (Screenshot_table m)],
                                             Commit],
                           screenshots := screenshots st\<rparr>)"
    using assms by (simp add: insert_screenshot_def)
  then have "insert_screenshot m r t d Returns st
               = (None, st\<lparr>db := db st @ [Execute (table_name (Screenshot_table m)) [build_row (with_recording d t r) (Screenshot_table m)],
                                             Commit]\<rparr>)"
    by simp
  then show ?thesis by blast
qed

lemma insert_window_event_effect:
  assumes "window_events st = []"
  shows "(\<exists>e. insert_window_event m r t d Returns st = (Some e, st))
         \<or> (\<exists>tbl row. insert_window_event m r t d Returns st
               = (None, st\<lparr>db := db st @ [Execute tbl [row], Commit]\<rparr>))"
  using crud_insert_buffered_cases [of "with_recording d t r" "WindowEvent_table m" "window_events st" "db st"]
proof (elim disjE exE)
  fix msg
  assume "crud_insert (with_recording d t r) (WindowEvent_table m) (Some (window_events st)) (db st) Returns
            = (Inl (AssertionError msg), Some (window_events st), db st)"
  then have "insert_window_event m r t d Returns st = (Some (AssertionError msg), st)"
    by (simp add: insert_window_event_def)
  then show ?thesis by blast
next
  assume "crud_insert (with_recording d t r) (WindowEvent_table m) (Some (window_events st)) (db st) Returns
            = (Inr (Some CursorResult), Some [],
               db st @ [Execute (table_name (WindowEvent_table m)) (window_events st @ [build_row (with_recording d t r) (WindowEvent_table m)]),
                        Commit])"
  then have "insert_window_event m r t d Returns st
               = (None, st\<lparr>db := db st @ [Execute (table_name (WindowEvent_table m)) [build_row (with_recording d t r) (WindowEvent_table m)],
                                             Commit],
                           window_events := window_events st\<rparr>)"
    using assms by (simp add: insert_window_event_def)
  then have "insert_window_event m r t d Returns st
               = (None, st\<lparr>db := db st @ [Execute (table_name (WindowEvent_table m)) [build_row (with_recording d t r) (WindowEvent_table m)],
                                             Commit]\<rparr>)"
    by simp
  then show ?thesis by blast
qed

lemma insert_perf_stat_effect:
  assumes "performance_stats st = []"
  shows "(\<exists>e. insert_perf_stat m r ty t0 t1 Returns st = (Some e, st))
         \<or> (\<exists>tbl row. insert_perf_stat m r ty t0 t1 Returns st
               = (None, st\<lparr>db := db st @ [Execute tbl [row], Commit]\<rparr>))"
  using crud_insert_buffered_cases [of "[(''recording_timestamp'', rec_timestamp r), (''recording_id'', PyInt (rec_id r)), (''event_type'', PyStr ty), (''start_time'', t0), (''end_time'', t1)]" "PerformanceStat_table m" "performance_stats st" "db st"]
proof (elim disjE exE)
  fix msg
  assume "crud_insert ([(''recording_timestamp'', rec_timestamp r), (''recording_id'', PyInt (rec_id r)), (''event_type'', PyStr ty), (''start_time'', t0), (''end_time'', t1)]) (PerformanceStat_table m) (Some (performance_stats st)) (db st) Returns
            = (Inl (AssertionError msg), Some (performance_stats st), db st)"
  then have "insert_perf_stat m r ty t0 t1 Returns st = (Some (AssertionError msg), st)"
    by (simp add: insert_perf_stat_def)
  then show ?thesis by blast
next
  assume "crud_insert ([(''recording_timestamp'', rec_timestamp r), (''recording_id'', PyInt (rec_id r)), (''event_type'', PyStr ty), (''start_time'', t0), (''end_time'', t1)]) (PerformanceStat_table m) (Some (performance_stats st)) (db st) Returns
            = (Inr (Some CursorResult), Some [],
               db st @ [Execute (table_name (PerformanceStat_table m)) (performance_stats st @ [build_row ([(''recording_timestamp'', rec_timestamp r), (''recording_id'', PyInt (rec_id r)), (''event_type'', PyStr ty), (''start_time'', t0), (''end_time'', t1)]) (PerformanceStat_table m)]),
                        Commit])"
  then have "insert_perf_stat m r ty t0 t1 Returns st
               = (None, st\<lparr>db := db st @ [Execute (table_name (PerformanceStat_table m)) [build_row ([(''recording_timestamp'', rec_timestamp r), (''recording_id'', PyInt (rec_id r)), (''event_type'', PyStr ty), (''start_time'', t0), (''end_time'', t1)]) (PerformanceStat_table m)],
                                             Commit],
                           performance_stats := performance_stats st\<rparr>)"
    using assms by (simp add: insert_perf_stat_def)
  then have "insert_perf_stat m r ty t0 t1 Returns st
               = (None, st\<lparr>db := db st @ [Execute (table_name (PerformanceStat_table m)) [build_row ([(''recording_timestamp'', rec_timestamp r), (''recording_id'', PyInt (rec_id r)), (''event_type'', PyStr ty), (''start_time'', t0), (''end_time'', t1)]) (PerformanceStat_table m)],
                                             Commit]\<rparr>)"
    by simp
  then show ?thesis by blast
qed

lemma insert_memory_stat_effect:
  assumes "memory_stats st = []"
  shows "(\<exists>e. insert_memory_stat m r b t Returns st = (Some e, st))
         \<or> (\<exists>tbl row. insert_memory_stat m r b t Returns st
               = (None, st\<lparr>db := db st @ [Execute tbl [row], Commit]\<rparr>))"
  using crud_insert_buffered_cases [of "[(''recording_timestamp'', rec_timestamp r), (''recording_id'', PyInt (rec_id r)), (''memory_usage_bytes'', b), (''timestamp'', t)]" "MemoryStat_table m" "memory_stats st" "db st"]
proof (elim disjE exE)
  fix msg
  assume "crud_insert ([(''recording_timestamp'', rec_timestamp r), (''recording_id'', PyInt (rec_id r)), (''memory_usage_bytes'', b), (''timestamp'', t)]) (MemoryStat_table m) (Some (memory_stats st)) (db st) Returns
            = (Inl (AssertionError msg), Some (memory_stats st), db st)"
  then have "insert_memory_stat m r b t Returns st = (Some (AssertionError msg), st)"
    by (simp add: insert_memory_stat_def)
  then show ?thesis by blast
next
  assume "crud_insert ([(''recording_timestamp'', rec_timestamp r), (''recording_id'', PyInt (rec_id r)), (''memory_usage_bytes'', b), (''timestamp'', t)]) (MemoryStat_table m) (Some (memory_stats st)) (db st) Returns
            = (Inr (Some CursorResult), Some [],
               db st @ [Execute (table_name (MemoryStat_table m)) (memory_stats st @ [build_row ([(''recording_timestamp'', rec_timestamp r), (''recording_id'', PyInt (rec_id r)), (''memory_usage_bytes'', b), (''timestamp'', t)]) (MemoryStat_table m)]),
                        Commit])"
  then have "insert_memory_stat m r b t Returns st
               = (None, st\<lparr>db := db st @ [Execute (table_name (MemoryStat_table m)) [build_row ([(''recording_timestamp'', rec_timestamp r), (''recording_id'', PyInt (rec_id r)), (''memory_usage_bytes'', b), (''timestamp'', t)]) (MemoryStat_table m)],
                                             Commit],
                           memory_stats := memory_stats st\<rparr>)"
    using assms by (simp add: insert_memory_stat_def)
  then have "insert_memory_stat m r b t Returns st
               = (None, st\<lparr>db := db st @ [Execute (table_name (MemoryStat_table m)) [build_row ([(''recording_timestamp'', rec_timestamp r), (''recording_id'', PyInt (rec_id r)), (''memory_usage_bytes'', b), (''timestamp'', t)]) (MemoryStat_table m)],
                                             Commit]\<rparr>)"
    by simp
  then show ?thesis by blast
qed

lemma run_call_effect:
  assumes "buffers_empty st"
  shows "(\<exists>e. run_call m st (c, Returns) = (Some e, st))
         \<or> (\<exists>tbl row. run_call m st (c, Returns)
               = (None, st\<lparr>db := db st @ [Execute tbl [row], Commit]\<rparr>))"
proof (cases c)
  case (InsertActionEvent r t d)
  have "action_events st = []" using assms by (simp add: buffers_empty_def)
  from insert_action_event_effect [OF this, of m r t d] show ?thesis
    unfolding InsertActionEvent run_call.simps .
next
  case (InsertScreenshot r t d)
  have "screenshots st = []" using assms by (simp add: buffers_empty_def)
  from insert_screenshot_effect [OF this, of m r t d] show ?thesis
    unfolding InsertScreenshot run_call.simps .
next
  case (InsertWindowEvent r t d)
  have "window_events st = []" using assms by (simp add: buffers_empty_def)
  from insert_window_event_effect [OF this, of m r t d] show ?thesis
    unfolding InsertWindowEvent run_call.simps .
next
  case (InsertPerfStat r ty t0 t1)
  have "performance_stats st = []" using assms by (simp add: buffers_empty_def)
  from insert_perf_stat_effect [OF this, of m r ty t0 t1] show ?thesis
    unfolding InsertPerfStat run_call.simps .
next
  case (InsertMemoryStat r b t)
  have "memory_stats st = []" using assms by (simp add: buffers_empty_def)
  from insert_memory_stat_effect [OF this, of m r b t] show ?thesis
    unfolding InsertMemoryStat run_call.simps .
qed

lemma buffers_empty_db_update: "buffers_empty (st\<lparr>db := d\<rparr>) = buffers_empty st"
  by (simp add: buffers_empty_def)

lemma run_call_keeps_buffers_empty:
  assumes "buffers_empty st"
  shows "buffers_empty (snd (run_call m st (c, Returns)))"
  using run_call_effect [OF assms, of m c]
proof (elim disjE exE)
  fix e assume "run_call m st (c, Returns) = (Some e, st)"
  then show ?thesis using assms by simp
next
  fix tbl row
  assume "run_call m st (c, Returns) = (None, st\<lparr>db := db st @ [Execute tbl [row], Commit]\<rparr>)"
  then show ?thesis using assms by (simp add: buffers_empty_db_update)
qed

lemma run_calls_keeps_buffers_empty:
  assumes "buffers_empty st" and "\<forall>c \<in> set calls. snd c = Returns"
  shows "buffers_empty (run_calls m st calls)"
  using assms
proof (induction calls arbitrary: st)
  case Nil
  then show ?case by (simp add: run_calls_def)
next
  case (Cons c calls)
  obtain call where c: "c = (call, Returns)"
    using Cons.prems(2) by (cases c) simp
  have "buffers_empty (snd (run_call m st c))"
    unfolding c using Cons.prems(1) by (rule run_call_keeps_buffers_empty)
  moreover have "\<forall>c \<in> set calls. snd c = Returns"
    using Cons.prems(2) by simp
  ultimately have "buffers_empty (run_calls m (snd (run_call m st c)) calls)"
    by (rule Cons.IH)
  then show ?case by (simp add: run_calls_def)
qed

lemma initial_buffers_empty: "buffers_empty initial_state"
  by (simp add: buffers_empty_def initial_state_def)

text \<open>
  Claim C7, as stated, fails in two ways. A call of \<open>_insert\<close> with a buffer whose
  \<open>event_data\<close> has a key that is not a column raises at the assertion and appends,
  executes and commits nothing. And a call of \<open>insert_memory_stat\<close> during which
  \<open>db.execute\<close> raises leaves its row in \<open>memory_stats\<close>: the buffer is not empty after
  that call, and the row is sent to the database by the next call, together with that
  call's own row.
\<close>

theorem failed_insert_leaves_row_in_buffer:
  "crud_insert [(''bogus'', PyInt 1)] (ActionEvent_table example_models) (Some []) [] Returns
     = (Inl (AssertionError [(''bogus'', PyInt 1)]), Some [], [])
   \<and> memory_stats
        (snd (insert_memory_stat example_models example_recording (PyInt 1024) (PyInt 7)
                ExecuteRaises initial_state))
       = [[(''id'', PyNone), (''recording_timestamp'', PyInt 100), (''recording_id'', PyInt 1),
             (''memory_usage_bytes'', PyInt 1024), (''timestamp'', PyInt 7)]]
   \<and> db (run_calls example_models initial_state
            [(InsertMemoryStat example_recording (PyInt 1024) (PyInt 7), ExecuteRaises),
             (InsertMemoryStat example_recording (PyInt 2048) (PyInt 8), Returns)])
       = [Execute ''memory_stat''
           [[(''id'', PyNone), (''recording_timestamp'', PyInt 100), (''recording_id'', PyInt 1),
             (''memory_usage_bytes'', PyInt 1024), (''timestamp'', PyInt 7)],
            [(''id'', PyNone), (''recording_timestamp'', PyInt 100), (''recording_id'', PyInt 1),
             (''memory_usage_bytes'', PyInt 2048), (''timestamp'', PyInt 8)]],
          Commit]"
  by (simp add: crud_insert_def empty_row_def insert_memory_stat_def run_calls_def
        initial_state_def example_models_def example_recording_def BATCH_SIZE_def)

text \<open>
  Claim C7, amended. A call of \<open>_insert\<close> with a buffer whose \<open>event_data\<close> has only
  column names as keys, and during which \<open>db.execute\<close> and \<open>db.commit\<close> return, appends
  its row, executes the insert of the whole buffer, commits and leaves the buffer empty.
  A call whose \<open>event_data\<close> has another key raises \<open>AssertionError\<close> and changes
  neither the buffer nor the session. So after any list of \<open>insert_*\<close> calls made from
  the initial module state, during all of which the session calls returned, all five
  buffers are empty; and one more such call either raises \<open>AssertionError\<close> and changes
  nothing, or hands exactly one row to \<open>db.execute\<close>, commits, and changes nothing
  else: no row waits in a buffer for a later call.
\<close>

theorem inserts_never_defer_rows:
  "(fst ` set event_data \<subseteq> set (columns table) \<longrightarrow>
      crud_insert event_data table (Some buffer) d Returns
        = (Inr (Some CursorResult), Some [],
           d @ [Execute (table_name table) (buffer @ [build_row event_data table]), Commit]))
   \<and> (\<not> fst ` set event_data \<subseteq> set (columns table) \<longrightarrow>
      crud_insert event_data table (Some buffer) d outcome
        = (Inl (AssertionError (filter (\<lambda>(k, v). k \<notin> set (columns table)) event_data)),
           Some buffer, d))
   \<and> ((\<forall>c \<in> set calls. snd c = Returns) \<longrightarrow>
      buffers_empty (run_calls m initial_state calls)
      \<and> ((\<exists>e. run_call m (run_calls m initial_state calls) (c, Returns)
                 = (Some e, run_calls m initial_state calls))
         \<or> (\<exists>tbl row. run_call m (run_calls m initial_state calls) (c, Returns)
                 = (None, (run_calls m initial_state calls)
                            \<lparr>db := db (run_calls m initial_state calls)
                                     @ [Execute tbl [row], Commit]\<rparr>))))"
proof (intro conjI impI)
  assume "fst ` set event_data \<subseteq> set (columns table)"
  from crud_insert_known_keys [OF this, of "Some buffer" d Returns]
  show "crud_insert event_data table (Some buffer) d Returns
        = (Inr (Some CursorResult), Some [],
           d @ [Execute (table_name table) (buffer @ [build_row event_data table]), Commit])"
    by simp
next
  assume "\<not> fst ` set event_data \<subseteq> set (columns table)"
  then show "crud_insert event_data table (Some buffer) d outcome
        = (Inl (AssertionError (filter (\<lambda>(k, v). k \<notin> set (columns table)) event_data)),
           Some buffer, d)"
    by (rule crud_insert_unknown_key)
next
  assume r: "\<forall>c \<in> set calls. snd c = Returns"
  show e: "buffers_empty (run_calls m initial_state calls)"
    by (rule run_calls_keeps_buffers_empty [OF initial_buffers_empty r])
  show "(\<exists>e. run_call m (run_calls m initial_state calls) (c, Returns)
                 = (Some e, run_calls m initial_state calls))
         \<or> (\<exists>tbl row. run_call m (run_calls m initial_state calls) (c, Returns)
                 = (None, (run_calls m initial_state calls)
                            \<lparr>db := db (run_calls m initial_state calls)
                                     @ [Execute tbl [row], Commit]\<rparr>))"
    by (rule run_call_effect [OF e])
qed

theorem inserts_never_defer_rows_witness:
  "fst ` set [(''name'', PyStr ''press'')] \<subseteq> set (columns (ActionEvent_table example_models))
   \<and> crud_insert [(''name'', PyStr ''press'')] (ActionEvent_table example_models)
        (Some [[(''id'', PyInt 7), (''name'', PyNone)]]) [Commit] Returns
       = (Inr (Some CursorResult), Some [],
          [Commit,
           Execute ''action_event''
             [[(''id'', PyInt 7), (''name'', PyNone)], [(''id'', PyNone), (''name'', PyStr ''press'')]],
           Commit])
   \<and> \<not> fst ` set [(''bogus'', PyInt 1)] \<subseteq> set (columns (ActionEvent_table example_models))
   \<and> crud_insert [(''bogus'', PyInt 1)] (ActionEvent_table example_models)
        (Some [[(''id'', PyInt 7), (''name'', PyNone)]]) [Commit] CommitRaises
       = (Inl (AssertionError [(''bogus'', PyInt 1)]),
          Some [[(''id'', PyInt 7), (''name'', PyNone)]], [Commit])
   \<and> snd (InsertMemoryStat example_recording (PyInt 1024) (PyInt 7), Returns) = Returns
   \<and> buffers_empty
        (run_calls example_models initial_state
           [(InsertMemoryStat example_recording (PyInt 1024) (PyInt 7), Returns)])"
proof -
  let ?ed = "[(''name'', PyStr ''press'')]"
  let ?bad = "[(''bogus'', PyInt 1)]"
  let ?t = "ActionEvent_table example_models"
  let ?b = "[[(''id'', PyInt 7), (''name'', PyNone)]]"
  let ?calls = "[(InsertMemoryStat example_recording (PyInt 1024) (PyInt 7), Returns)]"
  have h1: "fst ` set ?ed \<subseteq> set (columns ?t)"
    by (simp add: example_models_def)
  have h2: "\<not> fst ` set ?bad \<subseteq> set (columns ?t)"
    by (simp add: example_models_def)
  have h3: "\<forall>c \<in> set ?calls. snd c = Returns" by simp
  have h3': "snd (InsertMemoryStat example_recording (PyInt 1024) (PyInt 7), Returns) = Returns"
    by simp
  have r: "build_row ?ed ?t = [(''id'', PyNone), (''name'', PyStr ''press'')]"
    by (simp add: build_row_def empty_row_def example_models_def)
  have n: "table_name ?t = ''action_event''"
    by (simp add: example_models_def)
  have f: "filter (\<lambda>(k, v). k \<notin> set (columns ?t)) ?bad = ?bad"
    by (simp add: example_models_def)
  note c1 = inserts_never_defer_rows
              [where event_data = ?ed and table = ?t and buffer = ?b and d = "[Commit]",
               THEN conjunct1, THEN mp, OF h1]
  note c2 = inserts_never_defer_rows
              [where event_data = ?bad and table = ?t and buffer = ?b and d = "[Commit]"
                 and outcome = CommitRaises,
               THEN conjunct2, THEN conjunct1, THEN mp, OF h2]
  note c3 = inserts_never_defer_rows
              [where calls = ?calls and m = example_models,
               THEN conjunct2, THEN conjunct2, THEN mp, OF h3, THEN conjunct1]
  have g1: "crud_insert ?ed ?t (Some ?b) [Commit] Returns
       = (Inr (Some CursorResult), Some [],
          [Commit,
           Execute ''action_event''
             [[(''id'', PyInt 7), (''name'', PyNone)], [(''id'', PyNone), (''name'', PyStr ''press'')]],
           Commit])"
    unfolding c1 r n by simp
  have g2: "crud_insert ?bad ?t (Some ?b) [Commit] CommitRaises
       = (Inl (AssertionError ?bad), Some ?b, [Commit])"
    unfolding c2 f by simp
  show ?thesis
    by (intro conjI h1 g1 h2 g2 h3' c3)
qed

section \<open>Properties of scrubbing and of the migrations\<close>

text \<open>
  Claim C9. When scrubbing is enabled, the recording \<open>crud.scrub_recording\<close> scrubs is
  the stored recording with id 2 (or none, when there is no such recording), whatever
  is passed as \<open>recording_id\<close>: two calls with different arguments scrub the same
  recording. The route \<open>/scrub/{recording_id}\<close>, when it finds the recording of the
  request, passes it on to \<open>crud.scrub_recording\<close>, which scrubs the recording with
  id 2 all the same.
\<close>

theorem scrub_recording_ignores_recording_id:
  assumes "SCRUB_ENABLED"
  shows "snd (scrub_recording SCRUB_ENABLED scrub_text recordings recording_id)
           = map_option (\<lambda>r. r\<lparr>task_description := scrub_text (task_description r)\<rparr>)
               (get_recording_by_id recordings 2)
         \<and> snd (scrub_recording SCRUB_ENABLED scrub_text recordings recording_id)
             = snd (scrub_recording SCRUB_ENABLED scrub_text recordings other_id)
         \<and> (get_recording_by_id recordings n = Some found \<longrightarrow>
              api_scrub_recording SCRUB_ENABLED scrub_text recordings n
                = (''abc'', Some (scrub_recording SCRUB_ENABLED scrub_text recordings found))
              \<and> snd (scrub_recording SCRUB_ENABLED scrub_text recordings found)
                  = map_option (\<lambda>r. r\<lparr>task_description := scrub_text (task_description r)\<rparr>)
                      (get_recording_by_id recordings 2))"
  using assms
  by (simp add: scrub_recording_def api_scrub_recording_def split: option.splits)

theorem scrub_recording_ignores_recording_id_witness:
  "True
   \<and> snd (scrub_recording True (\<lambda>s. ''<scrubbed>'')
            [\<lparr>rec_id = 2, rec_timestamp = PyInt 10, task_description = ''two''\<rparr>,
             \<lparr>rec_id = 5, rec_timestamp = PyInt 20, task_description = ''five''\<rparr>]
            (5 :: int))
       = Some \<lparr>rec_id = 2, rec_timestamp = PyInt 10, task_description = ''<scrubbed>''\<rparr>"
proof -
  let ?rs = "[\<lparr>rec_id = 2, rec_timestamp = PyInt 10, task_description = ''two''\<rparr>,
              \<lparr>rec_id = 5, rec_timestamp = PyInt 20, task_description = ''five''\<rparr>]"
  have g: "get_recording_by_id ?rs 2
             = Some \<lparr>rec_id = 2, rec_timestamp = PyInt 10, task_description = ''two''\<rparr>"
    by (simp add: get_recording_by_id_def)
  note c = scrub_recording_ignores_recording_id
             [of True "\<lambda>s. ''<scrubbed>''" ?rs "5 :: int" "5 :: int" 5, OF TrueI, THEN conjunct1]
  have "snd (scrub_recording True (\<lambda>s. ''<scrubbed>'') ?rs (5 :: int))
          = Some \<lparr>rec_id = 2, rec_timestamp = PyInt 10, task_description = ''<scrubbed>''\<rparr>"
    unfolding c g by simp
  with TrueI show ?thesis by (rule conjI)
qed

lemma add_then_drop:
  assumes "add_column table col s = Inr s'"
  shows "drop_column table (column_name col) s' = Inr s"
proof -
  obtain cols where cols: "map_of s table = Some cols"
    using assms by (auto simp: add_column_def split: option.splits)
  have fresh: "column_name col \<notin> set (map column_name cols)"
    using assms cols by (auto simp: add_column_def split: if_splits)
  have s': "s' = AList.update table (cols @ [col]) s"
    using assms cols fresh by (simp add: add_column_def)
  have look: "map_of s' table = Some (cols @ [col])"
    by (simp add: s' update_conv')
  have "column_name c \<noteq> column_name col" if "c \<in> set cols" for c
  proof
    assume "column_name c = column_name col"
    then have "column_name col = column_name c" by (rule sym)
    then have "column_name col \<in> column_name ` set cols"
      using that by (rule image_eqI)
    then show False using fresh by simp
  qed
  then have keep: "filter (\<lambda>c. column_name c \<noteq> column_name col) (cols @ [col]) = cols"
    by (simp add: filter_id_conv)
  have "AList.update table cols s' = s"
    by (simp add: s' update_triv [OF cols])
  then show ?thesis
    using look keep by (simp add: drop_column_def)
qed

lemma add_column_result:
  assumes "add_column table col s = Inr s'"
  shows "\<exists>cols. map_of s table = Some cols \<and> map_of s' table = Some (cols @ [col])
           \<and> (\<forall>t. t \<noteq> table \<longrightarrow> map_of s' t = map_of s t)"
proof -
  obtain cols where cols: "map_of s table = Some cols"
    using assms by (auto simp: add_column_def split: option.splits)
  have "s' = AList.update table (cols @ [col]) s"
    using assms cols by (auto simp: add_column_def split: if_splits)
  then show ?thesis using cols by (simp add: update_conv')
qed

text \<open>
  Claim C8. In both revisions \<open>upgrade\<close> adds one nullable JSON column at the end of
  its table (\<open>state\<close> to \<open>window_event\<close>, \<open>config\<close> to \<open>recording\<close>) and touches no
  other table, and \<open>downgrade\<close> applied to the schema \<open>upgrade\<close> produced gives the
  schema \<open>upgrade\<close> started from.
\<close>

theorem downgrade_inverts_upgrade:
  "(upgrade_57d78d23087a s = Inr s' \<longrightarrow>
      downgrade_57d78d23087a s' = Inr s
      \<and> (\<exists>cols. map_of s ''window_event'' = Some cols
            \<and> map_of s' ''window_event''
                = Some (cols @ [\<lparr>column_name = ''state'', column_type = JSON, nullable = True\<rparr>])
            \<and> (\<forall>t. t \<noteq> ''window_event'' \<longrightarrow> map_of s' t = map_of s t)))
   \<and> (upgrade_8495f5471e23 s = Inr s' \<longrightarrow>
      downgrade_8495f5471e23 s' = Inr s
      \<and> (\<exists>cols. map_of s ''recording'' = Some cols
            \<and> map_of s' ''recording''
                = Some (cols @ [\<lparr>column_name = ''config'', column_type = JSON, nullable = True\<rparr>])
            \<and> (\<forall>t. t \<noteq> ''recording'' \<longrightarrow> map_of s' t = map_of s t)))"
proof (intro conjI impI)
  assume u: "upgrade_57d78d23087a s = Inr s'"
  then have a: "add_column ''window_event''
                  \<lparr>column_name = ''state'', column_type = JSON, nullable = True\<rparr> s = Inr s'"
    by (simp add: upgrade_57d78d23087a_def)
  from add_then_drop [OF a] show "downgrade_57d78d23087a s' = Inr s"
    by (simp add: downgrade_57d78d23087a_def)
  from add_column_result [OF a]
  show "\<exists>cols. map_of s ''window_event'' = Some cols
            \<and> map_of s' ''window_event''
                = Some (cols @ [\<lparr>column_name = ''state'', column_type = JSON, nullable = True\<rparr>])
            \<and> (\<forall>t. t \<noteq> ''window_event'' \<longrightarrow> map_of s' t = map_of s t)" .
next
  assume u: "upgrade_8495f5471e23 s = Inr s'"
  then have a: "add_column ''recording''
                  \<lparr>column_name = ''config'', column_type = JSON, nullable = True\<rparr> s = Inr s'"
    by (simp add: upgrade_8495f5471e23_def)
  from add_then_drop [OF a] show "downgrade_8495f5471e23 s' = Inr s"
    by (simp add: downgrade_8495f5471e23_def)
  from add_column_result [OF a]
  show "\<exists>cols. map_of s ''recording'' = Some cols
            \<and> map_of s' ''recording''
                = Some (cols @ [\<lparr>column_name = ''config'', column_type = JSON, nullable = True\<rparr>])
            \<and> (\<forall>t. t \<noteq> ''recording'' \<longrightarrow> map_of s' t = map_of s t)" .
qed

theorem downgrade_inverts_upgrade_witness:
  "upgrade_57d78d23087a
       [(''window_event'', [\<lparr>column_name = ''id'', column_type = Integer, nullable = False\<rparr>])]
     = Inr [(''window_event'',
             [\<lparr>column_name = ''id'', column_type = Integer, nullable = False\<rparr>,
              \<lparr>column_name = ''state'', column_type = JSON, nullable = True\<rparr>])]
   \<and> downgrade_57d78d23087a
       [(''window_event'',
         [\<lparr>column_name = ''id'', column_type = Integer, nullable = False\<rparr>,
          \<lparr>column_name = ''state'', column_type = JSON, nullable = True\<rparr>])]
     = Inr [(''window_event'', [\<lparr>column_name = ''id'', column_type = Integer, nullable = False\<rparr>])]
   \<and> upgrade_8495f5471e23
       [(''recording'', [\<lparr>column_name = ''id'', column_type = Integer, nullable = False\<rparr>])]
     = Inr [(''recording'',
             [\<lparr>column_name = ''id'', column_type = Integer, nullable = False\<rparr>,
              \<lparr>column_name = ''config'', column_type = JSON, nullable = True\<rparr>])]
   \<and> downgrade_8495f5471e23
       [(''recording'',
         [\<lparr>column_name = ''id'', column_type = Integer, nullable = False\<rparr>,
          \<lparr>column_name = ''config'', column_type = JSON, nullable = True\<rparr>])]
     = Inr [(''recording'', [\<lparr>column_name = ''id'', column_type = Integer, nullable = False\<rparr>])]"
proof -
  let ?id = "\<lparr>column_name = ''id'', column_type = Integer, nullable = False\<rparr>"
  let ?w = "[(''window_event'', [?id])]"
  let ?w' = "[(''window_event'',
               [?id, \<lparr>column_name = ''state'', column_type = JSON, nullable = True\<rparr>])]"
  let ?r = "[(''recording'', [?id])]"
  let ?r' = "[(''recording'',
               [?id, \<lparr>column_name = ''config'', column_type = JSON, nullable = True\<rparr>])]"
  have u1: "upgrade_57d78d23087a ?w = Inr ?w'"
    by (simp add: upgrade_57d78d23087a_def add_column_def)
  have u2: "upgrade_8495f5471e23 ?r = Inr ?r'"
    by (simp add: upgrade_8495f5471e23_def add_column_def)
  note d1 = downgrade_inverts_upgrade [of ?w ?w', THEN conjunct1, THEN mp, OF u1, THEN conjunct1]
  note d2 = downgrade_inverts_upgrade [of ?r ?r', THEN conjunct2, THEN mp, OF u2, THEN conjunct1]
  show ?thesis by (intro conjI u1 d1 u2 d2)
qed

end
